theory Spec2Isabelle
  imports Main
begin

section \<open>Python primitives used by \<^verbatim>\<open>rag_api/file_processing.py\<close>\<close>

text \<open>
  A Python \<^verbatim>\<open>str\<close> is a sequence of characters; the chunker never looks at a
  character, so its text is a list over any character type \<open>'c\<close>.  Python integers are
  unbounded: \<open>int\<close>.

  \<^verbatim>\<open>seq[i:j]\<close>: a negative bound counts from the end, and both bounds are then clamped
  to \<open>0 .. len(seq)\<close>; the slice is empty when the lower bound is not below the upper.
\<close>

definition slice_bound :: "int \<Rightarrow> int \<Rightarrow> int" where
  "slice_bound n i = (if i < 0 then max 0 (n + i) else min n i)"

definition py_slice :: "'c list \<Rightarrow> int \<Rightarrow> int \<Rightarrow> 'c list" where
  "py_slice xs i j =
     (let n = int (length xs); lo = slice_bound n i; hi = slice_bound n j
      in take (nat (hi - lo)) (drop (nat lo) xs))"

section \<open>\<^verbatim>\<open>simple_chunker\<close>\<close>

text \<open>
  \<^verbatim>\<open>
  def simple_chunker(text, chunk_size=1500, chunk_overlap=150):
      if not text:
          return []
      chunks = []
      start = 0
      while start < len(text):
          end = start + chunk_size
          chunk = text[start:end]
          chunks.append(chunk)
          start += chunk_size - chunk_overlap
          if start < 0:
              start = 0
          if end >= len(text):
              break
      return chunks
  \<close>
  The \<^verbatim>\<open>while\<close> loop is the recursive function \<open>chunker_loop\<close> on the loop state
  \<open>(start, chunks)\<close>.  Nothing in the source bounds the number of iterations, so the
  result is an \<open>option\<close>: \<open>None\<close> is the loop that never leaves.
\<close>

partial_function (option) chunker_loop ::
  "'c list \<Rightarrow> int \<Rightarrow> int \<Rightarrow> int \<Rightarrow> 'c list list \<Rightarrow> 'c list list option"
where
  "chunker_loop text chunk_size chunk_overlap start chunks =
     (if start < int (length text) then
        (let end' = start + chunk_size;
             chunk = py_slice text start end';
             chunks' = chunks @ [chunk];
             start' = start + (chunk_size - chunk_overlap);
             start'' = (if start' < 0 then 0 else start')
         in if end' \<ge> int (length text) then Some chunks'
            else chunker_loop text chunk_size chunk_overlap start'' chunks')
      else Some chunks)"

declare chunker_loop.simps [code]

definition simple_chunker :: "'c list \<Rightarrow> int \<Rightarrow> int \<Rightarrow> 'c list list option" where
  "simple_chunker text chunk_size chunk_overlap =
     (if text = [] then Some [] else chunker_loop text chunk_size chunk_overlap 0 [])"

section \<open>\<^verbatim>\<open>generate_chunk_ids\<close>\<close>

text \<open>
  File names and identifiers are \<open>string\<close>s; a \<open>char\<close> stands for the Python character
  with the same code point (0 to 255, Latin-1).

  \<^verbatim>\<open>str(n)\<close> of an integer: its decimal digits, with a leading minus sign below zero.
\<close>

definition digit_char :: "nat \<Rightarrow> char" where
  "digit_char d = char_of (48 + d)"

fun str_nat :: "nat \<Rightarrow> string" where
  "str_nat n = (if n < 10 then [digit_char n] else str_nat (n div 10) @ [digit_char (n mod 10)])"

declare str_nat.simps [simp del]

definition str_int :: "int \<Rightarrow> string" where
  "str_int i = (if i < 0 then CHR ''-'' # str_nat (nat (- i)) else str_nat (nat i))"

text \<open>
  \<^verbatim>\<open>c.isalnum()\<close> on the code points 0 to 255: the ASCII digits and letters, and the
  Latin-1 letters, superscript digits and vulgar fractions.
\<close>

definition isalnum :: "char \<Rightarrow> bool" where
  "isalnum c =
     (let n = (of_char c :: nat)
      in (48 \<le> n \<and> n \<le> 57) \<or> (65 \<le> n \<and> n \<le> 90) \<or> (97 \<le> n \<and> n \<le> 122)
         \<or> n = 170 \<or> n = 178 \<or> n = 179 \<or> n = 181 \<or> n = 185 \<or> n = 186
         \<or> n = 188 \<or> n = 189 \<or> n = 190
         \<or> (192 \<le> n \<and> n \<le> 214) \<or> (216 \<le> n \<and> n \<le> 246) \<or> 248 \<le> n)"

text \<open>
  \<^verbatim>\<open>Path(filename).stem\<close> (pathlib, POSIX flavour, CPython 3.9 to 3.13): the path is
  split at \<^verbatim>\<open>/\<close>, empty components and \<^verbatim>\<open>.\<close> components are dropped, the name is the
  last component left (the empty string when there is none), and the stem is the name up
  to its last dot, when that dot is neither the first nor the last character of the name.
\<close>

fun split_on :: "'a \<Rightarrow> 'a list \<Rightarrow> 'a list list" where
  "split_on sep [] = [[]]"
| "split_on sep (c # cs) =
     (if c = sep then [] # split_on sep cs
      else (case split_on sep cs of [] \<Rightarrow> [[c]] | p # ps \<Rightarrow> (c # p) # ps))"

definition path_name :: "string \<Rightarrow> string" where
  "path_name p =
     (case filter (\<lambda>x. x \<noteq> [] \<and> x \<noteq> ''.'') (split_on CHR ''/'' p) of
        [] \<Rightarrow> []
      | x # xs \<Rightarrow> last (x # xs))"

definition rfind :: "string \<Rightarrow> char \<Rightarrow> int" where
  "rfind s c =
     (case filter (\<lambda>i. s ! i = c) (rev [0..<length s]) of
        [] \<Rightarrow> - 1
      | i # _ \<Rightarrow> int i)"

definition path_stem :: "string \<Rightarrow> string" where
  "path_stem p =
     (let name = path_name p; i = rfind name CHR ''.''
      in if 0 < i \<and> i < int (length name) - 1 then py_slice name 0 i else name)"

text \<open>
  \<^verbatim>\<open>
  def generate_chunk_ids(filename, num_chunks):
      timestamp = int(time.time())
      base_name = Path(filename).stem
      base_name_safe = "".join(c if c.isalnum() else "_" for c in base_name)[:50]
      return [f"{base_name_safe}_{timestamp}_chunk_{i}" for i in range(num_chunks)]
  \<close>
  The clock is read once; its value \<open>timestamp\<close> is an argument of the model.
  \<^verbatim>\<open>range(num_chunks)\<close> is empty when \<open>num_chunks \<le> 0\<close>.
\<close>

definition base_name_safe :: "string \<Rightarrow> string" where
  "base_name_safe filename =
     py_slice (map (\<lambda>c. if isalnum c then c else CHR ''_'') (path_stem filename)) 0 50"

definition py_range :: "int \<Rightarrow> int list" where
  "py_range n = map int [0..<nat n]"

definition generate_chunk_ids :: "int \<Rightarrow> string \<Rightarrow> int \<Rightarrow> string list" where
  "generate_chunk_ids timestamp filename num_chunks =
     map (\<lambda>i. base_name_safe filename @ ''_'' @ str_int timestamp @ ''_chunk_'' @ str_int i)
       (py_range num_chunks)"

section \<open>The views of \<^verbatim>\<open>rag_api/views.py\<close>\<close>

text \<open>
  A metadata dictionary is an association list from keys to values, in insertion order;
  the empty dictionary is the empty list.  Its values are strings, integers, or any other
  JSON value (\<open>'x\<close>).  A validated document carries \<^verbatim>\<open>id\<close> and \<^verbatim>\<open>text\<close>, and
  \<^verbatim>\<open>doc.get("metadata")\<close> is \<open>None\<close> when the key is absent.
\<close>

datatype 'x py_value = PStr string | PInt int | POther 'x

type_synonym 'x metadata = "(string \<times> 'x py_value) list"

record 'x document =
  doc_id :: string
  doc_text :: string
  doc_metadata :: "'x metadata option"

text \<open>
  The exceptions the views tell apart in their \<^verbatim>\<open>except\<close> clauses, the statuses they
  answer with, and the case each response body stands for.
\<close>

datatype py_exception = ConnectionError | ValueError | OtherException

datatype http_status =
    HTTP_200_OK
  | HTTP_201_CREATED
  | HTTP_400_BAD_REQUEST
  | HTTP_500_INTERNAL_SERVER_ERROR
  | HTTP_503_SERVICE_UNAVAILABLE

datatype body =
    SerializerErrors
  | NoDocuments
  | DocumentsAdded nat
  | ExtractionError string
  | NoTextFound string
  | NoChunks string
  | FileAdded string nat
  | ChromaUnavailable
  | ValidationFailed
  | InternalError

type_synonym response = "body \<times> http_status"

text \<open>
  The keyword arguments of one \<^verbatim>\<open>collection.add(ids=, embeddings=, documents=, metadatas=)\<close>
  call; \<open>'e\<close> is the type of an embedding vector.
\<close>

record ('e, 'x) add_args =
  add_ids :: "string list"
  add_embeddings :: "'e list"
  add_documents :: "string list"
  add_metadatas :: "'x metadata list"

text \<open>
  The collaborators of a request: whether \<^verbatim>\<open>get_chroma_client()\<close> followed by
  \<^verbatim>\<open>get_or_create_collection\<close> raises, what \<^verbatim>\<open>embed_text_gemini\<close> returns or
  raises for a list of texts, whether \<^verbatim>\<open>collection.add\<close> raises for its arguments,
  and the clock value \<^verbatim>\<open>int(time.time())\<close>.
\<close>

record ('e, 'x) services =
  get_collection :: "py_exception option"
  embed_text_gemini :: "string list \<Rightarrow> py_exception + 'e list"
  collection_add :: "('e, 'x) add_args \<Rightarrow> py_exception option"
  time_now :: int

text \<open>
  Both views end with the same three \<^verbatim>\<open>except\<close> clauses:
  \<^verbatim>\<open>ConnectionError\<close> answers 503, \<^verbatim>\<open>ValueError\<close> 400, any other exception 500.
\<close>

fun handle_exception :: "py_exception \<Rightarrow> response" where
  "handle_exception ConnectionError = (ChromaUnavailable, HTTP_503_SERVICE_UNAVAILABLE)"
| "handle_exception ValueError = (ValidationFailed, HTTP_400_BAD_REQUEST)"
| "handle_exception OtherException = (InternalError, HTTP_500_INTERNAL_SERVER_ERROR)"

subsection \<open>\<^verbatim>\<open>IngestView.post\<close>\<close>

text \<open>
  \<^verbatim>\<open>
  for doc in documents_data:
      ids.append(doc["id"])
      texts.append(doc["text"])
      metadata = doc.get("metadata")
      if not metadata:
          metadatas_prepared.append({"source": "unknown"})
      else:
          metadatas_prepared.append(metadata)
  \<close>
  \<^verbatim>\<open>not metadata\<close> holds for \<^verbatim>\<open>None\<close> and for the empty dictionary.
\<close>

definition not_metadata :: "'x metadata option \<Rightarrow> bool" where
  "not_metadata metadata = (case metadata of None \<Rightarrow> True | Some d \<Rightarrow> d = [])"

fun ingest_loop ::
  "'x document list \<Rightarrow> string list \<times> string list \<times> 'x metadata list
     \<Rightarrow> string list \<times> string list \<times> 'x metadata list"
where
  "ingest_loop [] (ids, texts, metadatas_prepared) = (ids, texts, metadatas_prepared)"
| "ingest_loop (doc # documents_data) (ids, texts, metadatas_prepared) =
     (let metadata = doc_metadata doc
      in if not_metadata metadata
         then ingest_loop documents_data
                (ids @ [doc_id doc], texts @ [doc_text doc],
                 metadatas_prepared @ [[(''source'', PStr ''unknown'')]])
         else ingest_loop documents_data
                (ids @ [doc_id doc], texts @ [doc_text doc],
                 metadatas_prepared @ [case metadata of Some d \<Rightarrow> d | None \<Rightarrow> []]))"

text \<open>
  The request is either rejected by \<^verbatim>\<open>IngestSerializer\<close> (\<open>None\<close>) or gives the
  validated list of documents.  The result is the response together with the arguments of
  the \<^verbatim>\<open>collection.add\<close> call, when the view reached it.
\<close>

definition ingest_post ::
  "('e, 'x) services \<Rightarrow> 'x document list option \<Rightarrow> response \<times> ('e, 'x) add_args option"
where
  "ingest_post env request =
     (case request of
        None \<Rightarrow> ((SerializerErrors, HTTP_400_BAD_REQUEST), None)
      | Some documents_data \<Rightarrow>
          (case get_collection env of
             Some e \<Rightarrow> (handle_exception e, None)
           | None \<Rightarrow>
               (case ingest_loop documents_data ([], [], []) of
                  (ids, texts, metadatas_prepared) \<Rightarrow>
                    if ids = [] then ((NoDocuments, HTTP_200_OK), None)
                    else
                      (case embed_text_gemini env texts of
                         Inl e \<Rightarrow> (handle_exception e, None)
                       | Inr embeddings \<Rightarrow>
                           (let args = \<lparr>add_ids = ids, add_embeddings = embeddings,
                                        add_documents = texts,
                                        add_metadatas = metadatas_prepared\<rparr>
                            in case collection_add env args of
                                 Some e \<Rightarrow> (handle_exception e, Some args)
                               | None \<Rightarrow>
                                   ((DocumentsAdded (length ids), HTTP_201_CREATED),
                                    Some args))))))"

subsection \<open>\<^verbatim>\<open>FileUploadIngestView.post\<close>\<close>

text \<open>
  \<^verbatim>\<open>s.strip()\<close> removes leading and trailing whitespace; on the code points 0 to 255
  the whitespace characters are 9 to 13, 28 to 32, 133 and 160.
\<close>

definition isspace :: "char \<Rightarrow> bool" where
  "isspace c =
     (let n = (of_char c :: nat)
      in (9 \<le> n \<and> n \<le> 13) \<or> (28 \<le> n \<and> n \<le> 32) \<or> n = 133 \<or> n = 160)"

definition strip :: "string \<Rightarrow> string" where
  "strip s = rev (dropWhile isspace (rev (dropWhile isspace s)))"

text \<open>
  \<^verbatim>\<open>
  extracted_text, error_msg = extract_text_from_file(uploaded_file)
  if error_msg: return Response({"error": error_msg}, 400)
  if not extracted_text or not extracted_text.strip(): return Response({...}, 200)
  chunks = simple_chunker(extracted_text, chunk_size=1500, chunk_overlap=150)
  if not chunks: return Response({...}, 200)
  chunk_ids = generate_chunk_ids(original_filename, len(chunks))
  metadatas = [{"source": original_filename, "chunk_index": i, "total_chunks": len(chunks)}
               for i in range(len(chunks))]
  try:
      embeddings = embed_text_gemini(chunks, task_type="retrieval_document")
      collection = get_chroma_client().get_or_create_collection(...)
      collection.add(ids=chunk_ids, embeddings=embeddings, documents=chunks, metadatas=metadatas)
      return Response({...}, 201)
  except ...
  \<close>
  The request is either rejected by \<^verbatim>\<open>FileUploadSerializer\<close> (\<open>None\<close>) or gives the
  name of the uploaded file and the pair returned by \<^verbatim>\<open>extract_text_from_file\<close>.
  The result is \<open>None\<close> when the chunker does not return.
\<close>

definition upload_metadatas :: "string \<Rightarrow> nat \<Rightarrow> 'x metadata list" where
  "upload_metadatas original_filename n =
     map (\<lambda>i. [(''source'', PStr original_filename), (''chunk_index'', PInt i),
               (''total_chunks'', PInt (int n))])
       (py_range (int n))"

definition upload_store ::
  "('e, 'x) services \<Rightarrow> string \<Rightarrow> string list \<Rightarrow> response \<times> ('e, 'x) add_args option"
where
  "upload_store env original_filename chunks =
     (let chunk_ids = generate_chunk_ids (time_now env) original_filename (int (length chunks));
          metadatas = upload_metadatas original_filename (length chunks)
      in case embed_text_gemini env chunks of
           Inl e \<Rightarrow> (handle_exception e, None)
         | Inr embeddings \<Rightarrow>
             (case get_collection env of
                Some e \<Rightarrow> (handle_exception e, None)
              | None \<Rightarrow>
                  (let args = \<lparr>add_ids = chunk_ids, add_embeddings = embeddings,
                               add_documents = chunks, add_metadatas = metadatas\<rparr>
                   in case collection_add env args of
                        Some e \<Rightarrow> (handle_exception e, Some args)
                      | None \<Rightarrow>
                          ((FileAdded original_filename (length chunks), HTTP_201_CREATED),
                           Some args))))"

definition upload_post ::
  "('e, 'x) services \<Rightarrow> (string \<times> string option \<times> string option) option
     \<Rightarrow> (response \<times> ('e, 'x) add_args option) option"
where
  "upload_post env request =
     (case request of
        None \<Rightarrow> Some ((SerializerErrors, HTTP_400_BAD_REQUEST), None)
      | Some (original_filename, extracted_text, error_msg) \<Rightarrow>
          if error_msg \<noteq> None \<and> error_msg \<noteq> Some []
          then Some ((ExtractionError (case error_msg of Some m \<Rightarrow> m | None \<Rightarrow> []),
                      HTTP_400_BAD_REQUEST), None)
          else
            (case extracted_text of
               None \<Rightarrow> Some ((NoTextFound original_filename, HTTP_200_OK), None)
             | Some txt \<Rightarrow>
                 if txt = [] \<or> strip txt = []
                 then Some ((NoTextFound original_filename, HTTP_200_OK), None)
                 else
                   (case simple_chunker txt 1500 150 of
                      None \<Rightarrow> None
                    | Some chunks \<Rightarrow>
                        if chunks = []
                        then Some ((NoChunks original_filename, HTTP_200_OK), None)
                        else Some (upload_store env original_filename chunks))))"

subsection \<open>A concrete request\<close>

text \<open>
  Collaborators that never fail, with the length of a text for its embedding and the clock
  at 17, and three documents: one without metadata, one with an empty dictionary and one
  with a dictionary of one entry.
\<close>

definition example_services :: "(nat, unit) services" where
  "example_services =
     \<lparr>get_collection = None, embed_text_gemini = (\<lambda>texts. Inr (map length texts)),
      collection_add = (\<lambda>args. None), time_now = 17\<rparr>"

definition example_documents :: "unit document list" where
  "example_documents =
     [\<lparr>doc_id = ''a'', doc_text = ''hello'', doc_metadata = None\<rparr>,
      \<lparr>doc_id = ''b'', doc_text = ''x'', doc_metadata = Some []\<rparr>,
      \<lparr>doc_id = ''c'', doc_text = ''yz'', doc_metadata = Some [(''k'', PInt 3)]\<rparr>]"

section \<open>Properties of \<^verbatim>\<open>simple_chunker\<close>\<close>

subsection \<open>Slices with bounds that are not negative\<close>

lemma py_slice_nonneg:
  "0 \<le> i \<Longrightarrow> 0 \<le> j \<Longrightarrow> py_slice xs i j = take (nat j - nat i) (drop (nat i) xs)"
  by (cases "i < int (length xs)"; cases "j < int (length xs)")
     (auto simp: py_slice_def slice_bound_def Let_def min_def nat_diff_distrib')

lemma py_slice_window:
  "0 \<le> z \<Longrightarrow> py_slice xs (int a) (int a + z) = take (nat z) (drop a xs)"
  by (simp add: py_slice_nonneg nat_add_distrib)

lemma map_upt_Suc_shift:
  "map f [0..<Suc m] = f 0 # map (\<lambda>k. f (Suc k)) [0..<m]"
  by (simp add: upt_conv_Cons map_Suc_upt [symmetric] del: upt_Suc)

subsection \<open>The loop with a positive step\<close>

text \<open>
  With \<open>0 \<le> chunk_overlap < chunk_size\<close> the loop started at offset \<open>a\<close> inside the text
  returns: it appends the windows at offsets \<open>a, a + s, \<dots>, a + m * s\<close>, where
  \<open>s = chunk_size - chunk_overlap\<close>, and the window at \<open>a + m * s\<close> is the first whose end
  reaches the end of the text.  Induction on the distance from \<open>a\<close> to the end.
\<close>

lemma chunker_loop_closed:
  assumes ov: "0 \<le> chunk_overlap" "chunk_overlap < chunk_size"
  shows "a < length text \<Longrightarrow>
    \<exists>m. chunker_loop text chunk_size chunk_overlap (int a) chunks =
          Some (chunks @ map (\<lambda>k. take (nat chunk_size)
                  (drop (a + k * nat (chunk_size - chunk_overlap)) text)) [0..<Suc m])
        \<and> length text \<le> a + m * nat (chunk_size - chunk_overlap) + nat chunk_size
        \<and> (\<forall>k<m. a + k * nat (chunk_size - chunk_overlap) + nat chunk_size < length text)"
proof (induction "length text - a" arbitrary: a chunks rule: less_induct)
  case less
  let ?s = "nat (chunk_size - chunk_overlap)"
  let ?z = "nat chunk_size"
  let ?w = "\<lambda>a k. take ?z (drop (a + k * ?s) text)"
  have z0: "0 \<le> chunk_size" using ov by simp
  have sl: "py_slice text (int a) (int a + chunk_size) = take ?z (drop a text)"
    using z0 by (rule py_slice_window)
  show ?case
  proof (cases "int (length text) \<le> int a + chunk_size")
    case True
    have "chunker_loop text chunk_size chunk_overlap (int a) chunks =
            Some (chunks @ [take ?z (drop a text)])"
      using less.prems True by (subst chunker_loop.simps) (simp add: Let_def sl)
    moreover have "length text \<le> a + ?z" using True z0 by linarith
    ultimately show ?thesis by (intro exI [of _ 0]) simp
  next
    case False
    have s_pos: "0 < ?s" using ov by simp
    have nxt: "int a + (chunk_size - chunk_overlap) = int (a + ?s)" using ov by simp
    have lt: "a + ?s < length text" using False ov by linarith
    have unfold: "chunker_loop text chunk_size chunk_overlap (int a) chunks =
        chunker_loop text chunk_size chunk_overlap (int (a + ?s)) (chunks @ [take ?z (drop a text)])"
      using less.prems False
      by (subst chunker_loop.simps) (simp add: Let_def sl nxt del: of_nat_add)
    have "length text - (a + ?s) < length text - a" using s_pos less.prems by simp
    from less.hyps [OF this lt, of "chunks @ [take ?z (drop a text)]"]
    obtain m where
      r: "chunker_loop text chunk_size chunk_overlap (int (a + ?s)) (chunks @ [take ?z (drop a text)]) =
            Some ((chunks @ [take ?z (drop a text)]) @ map (?w (a + ?s)) [0..<Suc m])"
      and e: "length text \<le> a + ?s + m * ?s + ?z"
      and b: "\<forall>k<m. a + ?s + k * ?s + ?z < length text"
      by blast
    have shift: "map (?w a) [0..<Suc (Suc m)] = take ?z (drop a text) # map (?w (a + ?s)) [0..<Suc m]"
      by (subst map_upt_Suc_shift) (simp add: add.assoc del: upt_Suc)
    have "chunker_loop text chunk_size chunk_overlap (int a) chunks =
            Some (chunks @ map (?w a) [0..<Suc (Suc m)])"
      unfolding unfold r shift by simp
    moreover have "length text \<le> a + Suc m * ?s + ?z" using e by simp
    moreover have "\<forall>k<Suc m. a + k * ?s + ?z < length text"
    proof (intro allI impI)
      fix k assume "k < Suc m"
      show "a + k * ?s + ?z < length text"
      proof (cases k)
        case 0
        then show ?thesis using False z0 by simp
      next
        case (Suc j)
        then have "j < m" using \<open>k < Suc m\<close> by simp
        with b have "a + ?s + j * ?s + ?z < length text" by blast
        then show ?thesis using Suc by (simp add: add.assoc)
      qed
    qed
    ultimately show ?thesis by (intro exI [of _ "Suc m"]) blast
  qed
qed


lemma simple_chunker_closed:
  assumes "xs \<noteq> []" "0 \<le> chunk_overlap" "chunk_overlap < chunk_size"
  shows "\<exists>m. simple_chunker xs chunk_size chunk_overlap =
          Some (map (\<lambda>k. take (nat chunk_size)
                  (drop (k * nat (chunk_size - chunk_overlap)) xs)) [0..<Suc m])
        \<and> length xs \<le> m * nat (chunk_size - chunk_overlap) + nat chunk_size
        \<and> (\<forall>k<m. k * nat (chunk_size - chunk_overlap) + nat chunk_size < length xs)"
proof -
  have "0 < length xs" using assms(1) by simp
  from chunker_loop_closed [OF assms(2,3) this, of "[]"] show ?thesis
    using assms(1) by (simp add: simple_chunker_def)
qed

subsection \<open>The loop with a step that is not positive\<close>

text \<open>
  When \<open>chunk_overlap \<ge> chunk_size\<close> the step is zero or negative, \<open>start\<close> is put back to
  \<open>0\<close>, and a text longer than \<open>chunk_size\<close> never meets the \<^verbatim>\<open>break\<close>: no
  iteration returns.  Fixpoint induction on the loop.
\<close>

lemma chunker_loop_stuck:
  assumes ret: "chunker_loop xs chunk_size chunk_overlap start chunks = Some y"
  shows "\<not> (start = 0 \<and> xs \<noteq> [] \<and> chunk_size < int (length xs) \<and> chunk_size \<le> chunk_overlap)"
proof (rule chunker_loop.raw_induct [where P = "\<lambda>xs chunk_size chunk_overlap start chunks y.
    \<not> (start = 0 \<and> xs \<noteq> [] \<and> chunk_size < int (length xs) \<and> chunk_size \<le> chunk_overlap)",
    OF _ ret])
  fix f :: "'a list \<Rightarrow> int \<Rightarrow> int \<Rightarrow> int \<Rightarrow> 'a list list \<Rightarrow> 'a list list option"
  fix ys :: "'a list" and z ov st :: int and cs r :: "'a list list"
  assume IH: "\<And>ys z ov st cs r. f ys z ov st cs = Some r \<Longrightarrow>
      \<not> (st = 0 \<and> ys \<noteq> [] \<and> z < int (length ys) \<and> z \<le> ov)"
  assume body: "(if st < int (length ys) then
        (let end' = st + z; chunk = py_slice ys st end'; chunks' = cs @ [chunk];
             start' = st + (z - ov); start'' = (if start' < 0 then 0 else start')
         in if int (length ys) \<le> end' then Some chunks' else f ys z ov start'' chunks')
      else Some cs) = Some r"
  show "\<not> (st = 0 \<and> ys \<noteq> [] \<and> z < int (length ys) \<and> z \<le> ov)"
  proof
    assume stuck: "st = 0 \<and> ys \<noteq> [] \<and> z < int (length ys) \<and> z \<le> ov"
    with body have "f ys z ov 0 (cs @ [py_slice ys 0 z]) = Some r"
      by (simp add: Let_def split: if_splits)
    from IH [OF this] stuck show False by simp
  qed
qed

lemma simple_chunker_diverges:
  "xs \<noteq> [] \<Longrightarrow> chunk_size < int (length xs) \<Longrightarrow> chunk_size \<le> chunk_overlap \<Longrightarrow>
   simple_chunker xs chunk_size chunk_overlap = None"
  using chunker_loop_stuck [of xs chunk_size chunk_overlap 0 "[]"]
  by (cases "chunker_loop xs chunk_size chunk_overlap 0 []") (auto simp: simple_chunker_def)

text \<open>
  C1 (the chunker terminates for every positive \<open>chunk_size\<close> and every
  \<open>chunk_overlap \<ge> 0\<close>, in particular on \<^verbatim>\<open>"x" * 100\<close> with size 10 and overlap 10):
  on that input the loop of the source does not return.
\<close>

theorem simple_chunker_overlap_eq_size_loops:
  "simple_chunker (replicate 100 CHR ''x'') 10 10 = None"
  by (rule simple_chunker_diverges) simp_all

text \<open>
  C7: the empty text gives the empty list, whatever the size and the overlap, and
  \<^verbatim>\<open>simple_chunker("abc", 10, 0)\<close> gives the single chunk \<^verbatim>\<open>"abc"\<close>.
\<close>

theorem simple_chunker_boundary:
  "simple_chunker ([] :: 'c list) chunk_size chunk_overlap = Some []
   \<and> simple_chunker ''abc'' 10 0 = Some [''abc'']"
  by (simp add: simple_chunker_def chunker_loop.simps py_slice_def slice_bound_def)

subsection \<open>The chunks as windows of the text\<close>

text \<open>
  With \<open>0 \<le> chunk_overlap < chunk_size\<close> and a text that is not empty, the chunker
  returns; chunk \<open>k\<close> is the window of \<open>chunk_size\<close> characters at offset
  \<open>k * (chunk_size - chunk_overlap)\<close>, every offset lies inside the text, the last window
  reaches the end of the text and no earlier one does.
\<close>

lemma simple_chunker_windows:
  assumes "xs \<noteq> []" "0 \<le> chunk_overlap" "chunk_overlap < chunk_size"
  shows "\<exists>cs. simple_chunker xs chunk_size chunk_overlap = Some cs \<and> cs \<noteq> []
    \<and> (\<forall>k<length cs. cs ! k = take (nat chunk_size) (drop (k * nat (chunk_size - chunk_overlap)) xs))
    \<and> (\<forall>k<length cs. k * nat (chunk_size - chunk_overlap) < length xs)
    \<and> length xs \<le> (length cs - 1) * nat (chunk_size - chunk_overlap) + nat chunk_size
    \<and> (\<forall>k. Suc k < length cs \<longrightarrow>
          k * nat (chunk_size - chunk_overlap) + nat chunk_size < length xs)"
proof -
  let ?s = "nat (chunk_size - chunk_overlap)"
  let ?z = "nat chunk_size"
  let ?w = "\<lambda>k. take ?z (drop (k * ?s) xs)"
  from simple_chunker_closed [OF assms] obtain m where
    r: "simple_chunker xs chunk_size chunk_overlap = Some (map ?w [0..<Suc m])"
    and e: "length xs \<le> m * ?s + ?z"
    and b: "\<forall>k<m. k * ?s + ?z < length xs"
    by blast
  have sz: "?s \<le> ?z" using assms by simp
  have len: "length (map ?w [0..<Suc m]) = Suc m" by simp
  have nth: "\<forall>k<Suc m. map ?w [0..<Suc m] ! k = ?w k"
  proof (intro allI impI)
    fix k assume "k < Suc m"
    then have "[0..<Suc m] ! k = k" by (metis add_0 nth_upt)
    with \<open>k < Suc m\<close> show "map ?w [0..<Suc m] ! k = ?w k" by (simp del: upt_Suc)
  qed
  have inside: "\<forall>k<Suc m. k * ?s < length xs"
  proof (intro allI impI)
    fix k assume "k < Suc m"
    show "k * ?s < length xs"
    proof (cases k)
      case 0
      then show ?thesis using assms(1) by simp
    next
      case (Suc j)
      with \<open>k < Suc m\<close> have "j < m" by simp
      with b have "j * ?s + ?z < length xs" by blast
      with sz Suc show ?thesis by simp
    qed
  qed
  show ?thesis
    apply (rule exI [of _ "map ?w [0..<Suc m]"])
    unfolding len
    using r e b nth inside by (simp del: upt_Suc)
qed

lemma windows_roundtrip_prefix:
  assumes "ov \<le> z"
  shows "take z xs @ concat (map (\<lambda>k. drop ov (take z (drop (Suc k * (z - ov)) xs))) [0..<j])
     = take (j * (z - ov) + z) xs"
proof (induction j)
  case 0
  show ?case by simp
next
  case (Suc j)
  let ?f = "\<lambda>k. drop ov (take z (drop (Suc k * (z - ov)) xs))"
  have idx: "ov + Suc j * (z - ov) = j * (z - ov) + z" using assms by simp
  have "?f j = take (z - ov) (drop (ov + Suc j * (z - ov)) xs)"
    by (simp only: drop_take drop_drop)
  then have step: "?f j = take (z - ov) (drop (j * (z - ov) + z) xs)"
    by (simp only: idx)
  have "take z xs @ concat (map ?f [0..<Suc j]) = (take z xs @ concat (map ?f [0..<j])) @ ?f j"
    by simp
  also have "\<dots> = take (j * (z - ov) + z) xs @ take (z - ov) (drop (j * (z - ov) + z) xs)"
    by (simp only: Suc.IH step)
  also have "\<dots> = take (j * (z - ov) + z + (z - ov)) xs"
    by (simp only: take_add)
  also have "j * (z - ov) + z + (z - ov) = Suc j * (z - ov) + z" by simp
  finally show ?case .
qed

text \<open>
  C2 (round trip): for a text that is not empty and \<open>0 \<le> chunk_overlap < chunk_size\<close>,
  the chunker returns a list of chunks, and the first chunk followed by every later chunk
  without its first \<open>chunk_overlap\<close> characters is the text.
\<close>

theorem simple_chunker_roundtrip:
  assumes "xs \<noteq> []" "0 \<le> chunk_overlap" "chunk_overlap < chunk_size"
  shows "\<exists>cs. simple_chunker xs chunk_size chunk_overlap = Some cs \<and> cs \<noteq> []
               \<and> hd cs @ concat (map (drop (nat chunk_overlap)) (tl cs)) = xs"
proof -
  let ?s = "nat (chunk_size - chunk_overlap)"
  let ?z = "nat chunk_size"
  let ?o = "nat chunk_overlap"
  let ?w = "\<lambda>k. take ?z (drop (k * ?s) xs)"
  from simple_chunker_closed [OF assms] obtain m where
    r: "simple_chunker xs chunk_size chunk_overlap = Some (map ?w [0..<Suc m])"
    and e: "length xs \<le> m * ?s + ?z"
    by blast
  have s: "?s = ?z - ?o" using assms by (simp add: nat_diff_distrib)
  have oz: "?o \<le> ?z" using assms by simp
  have shape: "map ?w [0..<Suc m] = take ?z xs # map (\<lambda>k. ?w (Suc k)) [0..<m]"
    by (subst map_upt_Suc_shift) simp
  have "hd (map ?w [0..<Suc m]) @ concat (map (drop ?o) (tl (map ?w [0..<Suc m])))
          = take ?z xs @ concat (map (\<lambda>k. drop ?o (take ?z (drop (Suc k * (?z - ?o)) xs))) [0..<m])"
    unfolding shape by (simp add: s comp_def)
  also have "\<dots> = take (m * (?z - ?o) + ?z) xs" using oz by (rule windows_roundtrip_prefix)
  also have "\<dots> = xs" using e by (simp add: s)
  finally show ?thesis using r by (intro exI [of _ "map ?w [0..<Suc m]"]) (simp del: upt_Suc)
qed

theorem simple_chunker_roundtrip_witness:
  "''abcdefgh'' \<noteq> [] \<and> (0::int) \<le> 1 \<and> (1::int) < 3
   \<and> (\<exists>cs. simple_chunker ''abcdefgh'' 3 1 = Some cs \<and> cs \<noteq> []
        \<and> hd cs @ concat (map (drop (nat 1)) (tl cs)) = ''abcdefgh'')"
  using simple_chunker_roundtrip [where xs = "''abcdefgh''" and chunk_size = 3 and chunk_overlap = 1]
  by simp

text \<open>
  C3 (coverage): for a text that is not empty and \<open>0 \<le> chunk_overlap < chunk_size\<close>,
  with \<open>s = chunk_size - chunk_overlap\<close>: chunk \<open>k\<close> is \<^verbatim>\<open>text[k*s : k*s + chunk_size]\<close>
  and its offset \<open>k * s\<close> is below the length of the text; every index \<open>i\<close> of the text
  lies in some chunk, which holds the character of the text there; and the last chunk ends
  exactly at the end of the text.
\<close>

theorem simple_chunker_coverage:
  assumes "xs \<noteq> []" "0 \<le> chunk_overlap" "chunk_overlap < chunk_size"
  defines "s \<equiv> nat (chunk_size - chunk_overlap)"
  shows "\<exists>cs. simple_chunker xs chunk_size chunk_overlap = Some cs \<and> cs \<noteq> []
    \<and> (\<forall>k<length cs. cs ! k = py_slice xs (int (k * s)) (int (k * s) + chunk_size)
          \<and> k * s < length xs)
    \<and> (\<forall>i<length xs. \<exists>k<length cs. k * s \<le> i \<and> i < k * s + length (cs ! k)
          \<and> cs ! k ! (i - k * s) = xs ! i)
    \<and> (length cs - 1) * s + length (last cs) = length xs"
proof -
  let ?z = "nat chunk_size"
  from simple_chunker_windows [OF assms(1-3)] obtain cs where
    r: "simple_chunker xs chunk_size chunk_overlap = Some cs" and ne: "cs \<noteq> []"
    and w: "\<forall>k<length cs. cs ! k = take ?z (drop (k * s) xs)"
    and inside: "\<forall>k<length cs. k * s < length xs"
    and e: "length xs \<le> (length cs - 1) * s + ?z"
    unfolding s_def by blast
  have z0: "0 \<le> chunk_size" and s0: "0 < s" and sz: "s \<le> ?z"
    using assms(2,3) by (simp_all add: s_def)
  have L: "0 < length cs" using ne by simp
  have len: "length (cs ! k) = min ?z (length xs - k * s)" if "k < length cs" for k
    using w that by simp
  have A: "\<forall>k<length cs. cs ! k = py_slice xs (int (k * s)) (int (k * s) + chunk_size)
          \<and> k * s < length xs"
    using w inside by (simp add: py_slice_window [OF z0] del: of_nat_mult)
  have B: "\<forall>i<length xs. \<exists>k<length cs. k * s \<le> i \<and> i < k * s + length (cs ! k)
          \<and> cs ! k ! (i - k * s) = xs ! i"
  proof (intro allI impI)
    fix i assume i: "i < length xs"
    define k where "k = min (length cs - 1) (i div s)"
    have kL: "k < length cs" using L unfolding k_def by linarith
    have "k * s \<le> (i div s) * s" by (rule mult_le_mono1) (simp add: k_def)
    also have "\<dots> \<le> i" by (rule div_times_less_eq_dividend)
    finally have lo: "k * s \<le> i" .
    have hi: "i < k * s + ?z"
    proof (cases "i div s \<le> length cs - 1")
      case True
      then have "k = i div s" by (simp add: k_def)
      moreover have "i < s + i div s * s" using s0 by (rule dividend_less_div_times)
      ultimately show ?thesis using sz by simp
    next
      case False
      then have "k = length cs - 1" by (simp add: k_def)
      with e i show ?thesis by simp
    qed
    have "i < k * s + length (cs ! k)" using len [OF kL] lo hi i by simp
    moreover have "cs ! k ! (i - k * s) = xs ! i"
      using w kL lo hi i by simp
    ultimately show "\<exists>k<length cs. k * s \<le> i \<and> i < k * s + length (cs ! k)
          \<and> cs ! k ! (i - k * s) = xs ! i"
      using kL lo by blast
  qed
  have "last cs = cs ! (length cs - 1)" using ne by (rule last_conv_nth)
  then have "length (last cs) = min ?z (length xs - (length cs - 1) * s)"
    using len [of "length cs - 1"] L by simp
  moreover have "(length cs - 1) * s < length xs" using inside L by simp
  ultimately have C: "(length cs - 1) * s + length (last cs) = length xs"
    using e by simp
  from r ne A B C show ?thesis by blast
qed

theorem simple_chunker_coverage_witness:
  "''abcdefgh'' \<noteq> [] \<and> (0::int) \<le> 1 \<and> (1::int) < 3
   \<and> (\<exists>cs. simple_chunker ''abcdefgh'' 3 1 = Some cs \<and> cs \<noteq> []
    \<and> (\<forall>k<length cs. cs ! k = py_slice ''abcdefgh'' (int (k * nat (3 - 1))) (int (k * nat (3 - 1)) + 3)
          \<and> k * nat (3 - 1) < length ''abcdefgh'')
    \<and> (\<forall>i<length ''abcdefgh''. \<exists>k<length cs. k * nat (3 - 1) \<le> i
          \<and> i < k * nat (3 - 1) + length (cs ! k)
          \<and> cs ! k ! (i - k * nat (3 - 1)) = ''abcdefgh'' ! i)
    \<and> (length cs - 1) * nat (3 - 1) + length (last cs) = length ''abcdefgh'')"
  using simple_chunker_coverage [where xs = "''abcdefgh''" and chunk_size = 3 and chunk_overlap = 1]
  by simp

text \<open>
  C9 (chunk lengths and offsets): for a text that is not empty and
  \<open>0 \<le> chunk_overlap < chunk_size\<close>, the chunker returns at least one chunk; every chunk
  is non-empty and has at most \<open>chunk_size\<close> characters; every chunk but the last has
  exactly \<open>chunk_size\<close>; chunk \<open>k\<close> is the slice of the text that starts at offset
  \<open>k * (chunk_size - chunk_overlap)\<close>, an offset inside the text; and the chunk after
  chunk \<open>k\<close> is the slice that starts \<open>chunk_size - chunk_overlap\<close> characters after the
  start of chunk \<open>k\<close>.
\<close>

theorem simple_chunker_chunk_lengths:
  assumes "xs \<noteq> []" "0 \<le> chunk_overlap" "chunk_overlap < chunk_size"
  defines "s \<equiv> nat (chunk_size - chunk_overlap)"
  shows "\<exists>cs. simple_chunker xs chunk_size chunk_overlap = Some cs \<and> cs \<noteq> []
    \<and> (\<forall>c\<in>set cs. c \<noteq> [] \<and> int (length c) \<le> chunk_size)
    \<and> (\<forall>k. Suc k < length cs \<longrightarrow> int (length (cs ! k)) = chunk_size)
    \<and> (\<forall>k<length cs. cs ! k = py_slice xs (int (k * s)) (int (k * s) + chunk_size)
          \<and> k * s < length xs)
    \<and> (\<forall>k. Suc k < length cs \<longrightarrow>
          cs ! Suc k = py_slice xs (int (k * s) + (chunk_size - chunk_overlap))
                         (int (k * s) + (chunk_size - chunk_overlap) + chunk_size))"
proof -
  let ?z = "nat chunk_size"
  from simple_chunker_windows [OF assms(1-3)] obtain cs where
    r: "simple_chunker xs chunk_size chunk_overlap = Some cs" and ne: "cs \<noteq> []"
    and w: "\<forall>k<length cs. cs ! k = take ?z (drop (k * s) xs)"
    and inside: "\<forall>k<length cs. k * s < length xs"
    and full: "\<forall>k. Suc k < length cs \<longrightarrow> k * s + ?z < length xs"
    unfolding s_def by blast
  have z0: "0 \<le> chunk_size" and zpos: "0 < ?z" using assms(2,3) by simp_all
  have A: "\<forall>c\<in>set cs. c \<noteq> [] \<and> int (length c) \<le> chunk_size"
  proof
    fix c assume "c \<in> set cs"
    then obtain k where k: "k < length cs" and c: "c = cs ! k" by (auto simp: in_set_conv_nth)
    from w k c have "length c = min ?z (length xs - k * s)" by simp
    moreover have "k * s < length xs" using inside k by blast
    ultimately have "0 < length c" "length c \<le> ?z" using zpos by simp_all
    then show "c \<noteq> [] \<and> int (length c) \<le> chunk_size" using z0 by auto
  qed
  have B: "\<forall>k. Suc k < length cs \<longrightarrow> int (length (cs ! k)) = chunk_size"
  proof (intro allI impI)
    fix k assume k: "Suc k < length cs"
    then have "length (cs ! k) = min ?z (length xs - k * s)" using w by simp
    moreover have "k * s + ?z < length xs" using full k by blast
    ultimately show "int (length (cs ! k)) = chunk_size" using z0 by simp
  qed
  have C0: "\<forall>k<length cs. cs ! k = py_slice xs (int (k * s)) (int (k * s) + chunk_size)"
    using w by (simp add: py_slice_window [OF z0] del: of_nat_mult)
  have C: "\<forall>k<length cs. cs ! k = py_slice xs (int (k * s)) (int (k * s) + chunk_size)
          \<and> k * s < length xs"
    using C0 inside by blast
  have D: "\<forall>k. Suc k < length cs \<longrightarrow>
          cs ! Suc k = py_slice xs (int (k * s) + (chunk_size - chunk_overlap))
                         (int (k * s) + (chunk_size - chunk_overlap) + chunk_size)"
  proof (intro allI impI)
    fix k assume k: "Suc k < length cs"
    have nxt: "int (Suc k * s) = int (k * s) + (chunk_size - chunk_overlap)"
      using assms(2,3) by (simp add: s_def)
    from C0 k have "cs ! Suc k = py_slice xs (int (Suc k * s)) (int (Suc k * s) + chunk_size)"
      by blast
    then show "cs ! Suc k = py_slice xs (int (k * s) + (chunk_size - chunk_overlap))
                         (int (k * s) + (chunk_size - chunk_overlap) + chunk_size)"
      by (simp only: nxt)
  qed
  from r ne A B C D show ?thesis by blast
qed

theorem simple_chunker_chunk_lengths_witness:
  "''abcdefgh'' \<noteq> [] \<and> (0::int) \<le> 1 \<and> (1::int) < 3
   \<and> simple_chunker ''abcdefgh'' 3 1 = Some [''abc'', ''cde'', ''efg'', ''gh'']
   \<and> (\<exists>cs. simple_chunker ''abcdefgh'' 3 1 = Some cs \<and> cs \<noteq> []
    \<and> (\<forall>c\<in>set cs. c \<noteq> [] \<and> int (length c) \<le> 3)
    \<and> (\<forall>k. Suc k < length cs \<longrightarrow> int (length (cs ! k)) = 3)
    \<and> (\<forall>k<length cs. cs ! k = py_slice ''abcdefgh'' (int (k * nat (3 - 1))) (int (k * nat (3 - 1)) + 3)
          \<and> k * nat (3 - 1) < length ''abcdefgh'')
    \<and> (\<forall>k. Suc k < length cs \<longrightarrow>
          cs ! Suc k = py_slice ''abcdefgh'' (int (k * nat (3 - 1)) + (3 - 1))
                         (int (k * nat (3 - 1)) + (3 - 1) + 3)))"
proof -
  have h: "''abcdefgh'' \<noteq> [] \<and> (0::int) \<le> 1 \<and> (1::int) < 3" by simp
  have ev: "simple_chunker ''abcdefgh'' 3 1 = Some [''abc'', ''cde'', ''efg'', ''gh'']"
    by (simp add: simple_chunker_def chunker_loop.simps py_slice_def slice_bound_def)
  from h simple_chunker_chunk_lengths
         [where xs = "''abcdefgh''" and chunk_size = 3 and chunk_overlap = 1]
  have inst: "\<exists>cs. simple_chunker ''abcdefgh'' 3 1 = Some cs \<and> cs \<noteq> []
    \<and> (\<forall>c\<in>set cs. c \<noteq> [] \<and> int (length c) \<le> 3)
    \<and> (\<forall>k. Suc k < length cs \<longrightarrow> int (length (cs ! k)) = 3)
    \<and> (\<forall>k<length cs. cs ! k = py_slice ''abcdefgh'' (int (k * nat (3 - 1))) (int (k * nat (3 - 1)) + 3)
          \<and> k * nat (3 - 1) < length ''abcdefgh'')
    \<and> (\<forall>k. Suc k < length cs \<longrightarrow>
          cs ! Suc k = py_slice ''abcdefgh'' (int (k * nat (3 - 1)) + (3 - 1))
                         (int (k * nat (3 - 1)) + (3 - 1) + 3))"
    by blast
  from h ev inst show ?thesis by blast
qed

text \<open>
  C6 (example): a text of 3200 characters, with the sizes 1500 and 150 of the upload view,
  gives exactly the three chunks \<^verbatim>\<open>text[0:1500]\<close>, \<^verbatim>\<open>text[1350:2850]\<close> and
  \<^verbatim>\<open>text[2700:3200]\<close>; the third has 500 characters and the loop stops after it.
\<close>

theorem simple_chunker_example_3200:
  assumes "length xs = 3200"
  shows "simple_chunker xs 1500 150 =
           Some [py_slice xs 0 1500, py_slice xs 1350 2850, py_slice xs 2700 3200]
         \<and> length (py_slice xs 2700 3200) = 500"
proof -
  have ne: "xs \<noteq> []" using assms by auto
  have "chunker_loop xs 1500 150 0 [] =
          chunker_loop xs 1500 150 1350 [py_slice xs 0 1500]"
    using assms by (subst chunker_loop.simps) (simp add: Let_def)
  also have "\<dots> = chunker_loop xs 1500 150 2700 [py_slice xs 0 1500, py_slice xs 1350 2850]"
    using assms by (subst chunker_loop.simps) (simp add: Let_def)
  also have "\<dots> = Some [py_slice xs 0 1500, py_slice xs 1350 2850, py_slice xs 2700 4200]"
    using assms by (subst chunker_loop.simps) (simp add: Let_def)
  finally have "simple_chunker xs 1500 150 =
      Some [py_slice xs 0 1500, py_slice xs 1350 2850, py_slice xs 2700 4200]"
    using ne by (simp add: simple_chunker_def)
  moreover have "py_slice xs 2700 4200 = py_slice xs 2700 3200"
    using assms by (simp add: py_slice_def slice_bound_def)
  moreover have "length (py_slice xs 2700 3200) = 500"
    using assms by (simp add: py_slice_def slice_bound_def)
  ultimately show ?thesis by simp
qed

theorem simple_chunker_example_3200_witness:
  "length (replicate 3200 CHR ''x'') = 3200
   \<and> simple_chunker (replicate 3200 CHR ''x'') 1500 150 =
       Some [py_slice (replicate 3200 CHR ''x'') 0 1500,
             py_slice (replicate 3200 CHR ''x'') 1350 2850,
             py_slice (replicate 3200 CHR ''x'') 2700 3200]
   \<and> length (py_slice (replicate 3200 CHR ''x'') 2700 3200) = 500"
  using simple_chunker_example_3200 [of "replicate 3200 CHR ''x''"]
  by simp

section \<open>Properties of \<^verbatim>\<open>generate_chunk_ids\<close>\<close>

subsection \<open>Decimal strings\<close>

lemma digit_char_inj:
  "a < 10 \<Longrightarrow> b < 10 \<Longrightarrow> digit_char a = digit_char b \<Longrightarrow> a = b"
proof -
  assume a: "a < 10" and b: "b < 10" and eq: "digit_char a = digit_char b"
  from eq have "(of_char (digit_char a) :: nat) = of_char (digit_char b)" by simp
  then have "(48 + a) mod 256 = (48 + b) mod 256" by (simp add: digit_char_def)
  with a b show "a = b" by simp
qed

lemma digit_char_code: "d < 10 \<Longrightarrow> (of_char (digit_char d) :: nat) = 48 + d"
  by (simp add: digit_char_def)

lemma str_nat_nonempty: "str_nat n \<noteq> []"
  by (subst str_nat.simps) simp

lemma str_nat_inj: "str_nat a = str_nat b \<Longrightarrow> a = b"
proof (induction a arbitrary: b rule: str_nat.induct)
  case (1 a)
  show ?case
  proof (cases "a < 10")
    case True
    then have sa: "str_nat a = [digit_char a]" by (subst str_nat.simps) simp
    show ?thesis
    proof (cases "b < 10")
      case bs: True
      then have "str_nat b = [digit_char b]" by (subst str_nat.simps) simp
      with sa "1.prems" True bs show ?thesis by (auto dest: digit_char_inj)
    next
      case False
      then have "str_nat b = str_nat (b div 10) @ [digit_char (b mod 10)]"
        by (subst str_nat.simps) simp
      with sa "1.prems" str_nat_nonempty [of "b div 10"] show ?thesis by simp
    qed
  next
    case False
    then have sa: "str_nat a = str_nat (a div 10) @ [digit_char (a mod 10)]"
      by (subst str_nat.simps) simp
    show ?thesis
    proof (cases "b < 10")
      case True
      then have "str_nat b = [digit_char b]" by (subst str_nat.simps) simp
      with sa "1.prems" str_nat_nonempty [of "a div 10"] show ?thesis by simp
    next
      case bl: False
      then have "str_nat b = str_nat (b div 10) @ [digit_char (b mod 10)]"
        by (subst str_nat.simps) simp
      with sa "1.prems" have q: "str_nat (a div 10) = str_nat (b div 10)"
        and d: "digit_char (a mod 10) = digit_char (b mod 10)" by simp_all
      from "1.IH" [OF False q] have "a div 10 = b div 10" .
      moreover from d have "a mod 10 = b mod 10" by (rule digit_char_inj [rotated 2]) simp_all
      ultimately show ?thesis by (metis div_mult_mod_eq)
    qed
  qed
qed

lemma str_int_of_nat: "str_int (int n) = str_nat n"
  by (simp add: str_int_def)

lemma str_nat_chars: "c \<in> set (str_nat n) \<Longrightarrow> \<exists>d<10. c = digit_char d"
proof (induction n rule: str_nat.induct)
  case (1 n)
  show ?case
  proof (cases "n < 10")
    case True
    with "1.prems" show ?thesis by (subst (asm) str_nat.simps) auto
  next
    case False
    with "1.prems" have "c \<in> set (str_nat (n div 10)) \<or> c = digit_char (n mod 10)"
      by (subst (asm) str_nat.simps) auto
    then show ?thesis
    proof
      assume "c \<in> set (str_nat (n div 10))"
      from "1.IH" [OF False this] show ?thesis .
    next
      assume "c = digit_char (n mod 10)"
      then show ?thesis by (intro exI [of _ "n mod 10"]) simp
    qed
  qed
qed

lemma str_int_chars:
  "c \<in> set (str_int i) \<Longrightarrow> c = CHR ''-'' \<or> (48 \<le> (of_char c :: nat) \<and> (of_char c :: nat) \<le> 57)"
  by (auto simp: str_int_def digit_char_code split: if_splits dest!: str_nat_chars)

subsection \<open>The base name and the identifiers\<close>

lemma base_name_safe_eq:
  "base_name_safe filename =
     take 50 (map (\<lambda>c. if isalnum c then c else CHR ''_'') (path_stem filename))"
  by (simp add: base_name_safe_def py_slice_nonneg)

lemma str_small:
  "str_int 0 = ''0''" "str_int 1 = ''1''" "str_int 2 = ''2''"
  by (simp_all add: str_int_def str_nat.simps digit_char_def char_of_eq_iff)

lemma py_range_3: "py_range 3 = [0, 1, 2]"
  by (simp add: py_range_def numeral_3_eq_3)

lemma stem_My_Report: "path_stem ''My Report.pdf'' = ''My Report''"
  by (simp add: path_stem_def path_name_def rfind_def py_slice_def slice_bound_def Let_def)


lemma isalnum_examples:
  "\<not> isalnum CHR ''/''" "\<not> isalnum CHR ''!''" "\<not> isalnum CHR '' ''"
  by (simp_all add: isalnum_def)

lemma base_My_Report: "base_name_safe ''My Report.pdf'' = ''My_Report''"
  by (simp add: base_name_safe_eq stem_My_Report isalnum_def)

lemma stem_weird: "path_stem ''weird/name!.txt'' = ''name!''"
  by (simp add: path_stem_def path_name_def rfind_def py_slice_def slice_bound_def Let_def)


lemma generate_chunk_ids_nat:
  "generate_chunk_ids timestamp filename (int n) =
     map (\<lambda>k. base_name_safe filename @ ''_'' @ str_int timestamp @ ''_chunk_'' @ str_nat k) [0..<n]"
  by (simp add: generate_chunk_ids_def py_range_def comp_def str_int_of_nat)

lemma base_name_safe_chars:
  "c \<in> set (base_name_safe filename) \<Longrightarrow> isalnum c \<or> c = CHR ''_''"
  by (auto simp: base_name_safe_eq dest!: in_set_takeD)

lemma chunk_id_chars:
  assumes "cid \<in> set (generate_chunk_ids timestamp filename num_chunks)" and "c \<in> set cid"
  shows "isalnum c \<or> c \<in> set ''_chunk-'' \<or> (48 \<le> (of_char c :: nat) \<and> (of_char c :: nat) \<le> 57)"
proof -
  from assms(1) obtain i where
    "cid = base_name_safe filename @ ''_'' @ str_int timestamp @ ''_chunk_'' @ str_int i"
    by (auto simp: generate_chunk_ids_def)
  with assms(2) have "c \<in> set (base_name_safe filename) \<or> c \<in> set ''_chunk_''
      \<or> c \<in> set (str_int timestamp) \<or> c \<in> set (str_int i)"
    by auto
  then show ?thesis
    using base_name_safe_chars [of c filename] str_int_chars [of c timestamp] str_int_chars [of c i]
    by auto
qed

text \<open>
  C4 (format of the identifiers): for \<open>n\<close> chunks the generator returns exactly \<open>n\<close>
  strings, the \<open>i\<close>-th is the base name, \<^verbatim>\<open>_\<close>, the timestamp, \<^verbatim>\<open>_chunk_\<close> and
  \<open>i\<close> in decimal, with one base name and one timestamp for the whole call; the strings
  are pairwise distinct; and for \<^verbatim>\<open>"My Report.pdf"\<close> and 3 they are
  \<^verbatim>\<open>My_Report_<timestamp>_chunk_0\<close>, \<^verbatim>\<open>_1\<close> and \<^verbatim>\<open>_2\<close>.
\<close>

theorem generate_chunk_ids_format:
  "length (generate_chunk_ids timestamp filename (int n)) = n
   \<and> (\<forall>i<n. generate_chunk_ids timestamp filename (int n) ! i =
         base_name_safe filename @ ''_'' @ str_int timestamp @ ''_chunk_'' @ str_int (int i))
   \<and> distinct (generate_chunk_ids timestamp filename (int n))
   \<and> generate_chunk_ids timestamp ''My Report.pdf'' 3 =
        [''My_Report_'' @ str_int timestamp @ ''_chunk_0'',
         ''My_Report_'' @ str_int timestamp @ ''_chunk_1'',
         ''My_Report_'' @ str_int timestamp @ ''_chunk_2'']"
proof -
  let ?pre = "base_name_safe filename @ ''_'' @ str_int timestamp @ ''_chunk_''"
  have g: "generate_chunk_ids timestamp filename (int n) = map (\<lambda>k. ?pre @ str_nat k) [0..<n]"
    by (simp add: generate_chunk_ids_nat)
  have A: "length (generate_chunk_ids timestamp filename (int n)) = n"
    unfolding g by simp
  have B: "\<forall>i<n. generate_chunk_ids timestamp filename (int n) ! i =
         base_name_safe filename @ ''_'' @ str_int timestamp @ ''_chunk_'' @ str_int (int i)"
    unfolding g by (simp add: str_int_of_nat)
  have "inj_on (\<lambda>k. ?pre @ str_nat k) (set [0..<n])"
    by (rule inj_onI) (simp add: str_nat_inj)
  then have C: "distinct (generate_chunk_ids timestamp filename (int n))"
    unfolding g by (simp add: distinct_map)
  have D: "generate_chunk_ids timestamp ''My Report.pdf'' 3 =
        [''My_Report_'' @ str_int timestamp @ ''_chunk_0'',
         ''My_Report_'' @ str_int timestamp @ ''_chunk_1'',
         ''My_Report_'' @ str_int timestamp @ ''_chunk_2'']"
    by (simp add: generate_chunk_ids_def py_range_3 base_My_Report str_small)
  from A B C D show ?thesis by blast
qed

theorem generate_chunk_ids_format_witness:
  "length (generate_chunk_ids 17 ''My Report.pdf'' (int 3)) = 3
   \<and> distinct (generate_chunk_ids 17 ''My Report.pdf'' (int 3))
   \<and> generate_chunk_ids 17 ''My Report.pdf'' 3 =
        [''My_Report_17_chunk_0'', ''My_Report_17_chunk_1'', ''My_Report_17_chunk_2'']"
proof -
  have s: "str_int 17 = ''17''"
    by (simp add: str_int_def str_nat.simps digit_char_def char_of_eq_iff)
  from generate_chunk_ids_format [of 17 "''My Report.pdf''" 3]
  have "length (generate_chunk_ids 17 ''My Report.pdf'' (int 3)) = 3
   \<and> distinct (generate_chunk_ids 17 ''My Report.pdf'' (int 3))
   \<and> generate_chunk_ids 17 ''My Report.pdf'' 3 =
        [''My_Report_'' @ str_int 17 @ ''_chunk_0'',
         ''My_Report_'' @ str_int 17 @ ''_chunk_1'',
         ''My_Report_'' @ str_int 17 @ ''_chunk_2'']"
    by blast
  then show ?thesis by (simp add: s)
qed

text \<open>
  C5 (sanitised base name): the base name is the stem of the file name with every
  character that is not alphanumeric replaced by an underscore, cut to its first 50
  characters; every identifier starts with it and holds neither \<^verbatim>\<open>/\<close> nor \<^verbatim>\<open>!\<close>;
  for \<^verbatim>\<open>"weird/name!.txt"\<close> the only identifier is \<^verbatim>\<open>name__<timestamp>_chunk_0\<close>.
\<close>

theorem generate_chunk_ids_sanitized:
  "base_name_safe filename =
     take 50 (map (\<lambda>c. if isalnum c then c else CHR ''_'') (path_stem filename))
   \<and> length (base_name_safe filename) \<le> 50
   \<and> (\<forall>c\<in>set (base_name_safe filename). isalnum c \<or> c = CHR ''_'')
   \<and> (\<forall>cid\<in>set (generate_chunk_ids timestamp filename num_chunks).
         take (length (base_name_safe filename)) cid = base_name_safe filename
         \<and> CHR ''/'' \<notin> set cid \<and> CHR ''!'' \<notin> set cid)
   \<and> generate_chunk_ids timestamp ''weird/name!.txt'' 1 =
        [''name__'' @ str_int timestamp @ ''_chunk_0'']"
proof -
  have A: "base_name_safe filename =
     take 50 (map (\<lambda>c. if isalnum c then c else CHR ''_'') (path_stem filename))"
    by (rule base_name_safe_eq)
  have B: "length (base_name_safe filename) \<le> 50" by (simp add: base_name_safe_eq)
  have C: "\<forall>c\<in>set (base_name_safe filename). isalnum c \<or> c = CHR ''_''"
    using base_name_safe_chars by blast
  have D: "\<forall>cid\<in>set (generate_chunk_ids timestamp filename num_chunks).
         take (length (base_name_safe filename)) cid = base_name_safe filename
         \<and> CHR ''/'' \<notin> set cid \<and> CHR ''!'' \<notin> set cid"
  proof
    fix cid assume m: "cid \<in> set (generate_chunk_ids timestamp filename num_chunks)"
    then have p: "take (length (base_name_safe filename)) cid = base_name_safe filename"
      by (auto simp: generate_chunk_ids_def)
    have "CHR ''/'' \<notin> set cid"
      using chunk_id_chars [OF m, of "CHR ''/''"] by (auto simp: isalnum_examples)
    moreover have "CHR ''!'' \<notin> set cid"
      using chunk_id_chars [OF m, of "CHR ''!''"] by (auto simp: isalnum_examples)
    ultimately show "take (length (base_name_safe filename)) cid = base_name_safe filename
         \<and> CHR ''/'' \<notin> set cid \<and> CHR ''!'' \<notin> set cid"
      using p by blast
  qed
  have "base_name_safe ''weird/name!.txt'' = ''name_''"
    by (simp add: base_name_safe_eq stem_weird isalnum_def)
  then have E: "generate_chunk_ids timestamp ''weird/name!.txt'' 1 =
        [''name__'' @ str_int timestamp @ ''_chunk_0'']"
    by (simp add: generate_chunk_ids_def py_range_def str_small)
  from A B C D E show ?thesis by blast
qed

theorem generate_chunk_ids_sanitized_witness:
  "length (base_name_safe ''weird/name!.txt'') \<le> 50
   \<and> generate_chunk_ids 17 ''weird/name!.txt'' 1 = [''name__17_chunk_0'']
   \<and> CHR ''/'' \<notin> set (hd (generate_chunk_ids 17 ''weird/name!.txt'' 1))
   \<and> CHR ''!'' \<notin> set (hd (generate_chunk_ids 17 ''weird/name!.txt'' 1))"
proof -
  have s: "str_int 17 = ''17''"
    by (simp add: str_int_def str_nat.simps digit_char_def char_of_eq_iff)
  from generate_chunk_ids_sanitized [of "''weird/name!.txt''" 17 1]
  have len: "length (base_name_safe ''weird/name!.txt'') \<le> 50"
    and all: "\<forall>cid\<in>set (generate_chunk_ids 17 ''weird/name!.txt'' 1).
         CHR ''/'' \<notin> set cid \<and> CHR ''!'' \<notin> set cid"
    and eq: "generate_chunk_ids 17 ''weird/name!.txt'' 1 = [''name__'' @ str_int 17 @ ''_chunk_0'']"
    by blast+
  from eq have ids: "generate_chunk_ids 17 ''weird/name!.txt'' 1 = [''name__17_chunk_0'']"
    by (simp add: s)
  then have "hd (generate_chunk_ids 17 ''weird/name!.txt'' 1)
      \<in> set (generate_chunk_ids 17 ''weird/name!.txt'' 1)"
    by simp
  with all have "CHR ''/'' \<notin> set (hd (generate_chunk_ids 17 ''weird/name!.txt'' 1))"
    and "CHR ''!'' \<notin> set (hd (generate_chunk_ids 17 ''weird/name!.txt'' 1))"
    by blast+
  with len ids show ?thesis by blast
qed

section \<open>Properties of the views\<close>

subsection \<open>\<^verbatim>\<open>IngestView.post\<close>\<close>

lemma ingest_loop_maps:
  "ingest_loop documents_data (a, b, c) =
     (a @ map doc_id documents_data, b @ map doc_text documents_data,
      c @ map (\<lambda>doc. if not_metadata (doc_metadata doc) then [(''source'', PStr ''unknown'')]
                       else (case doc_metadata doc of Some d \<Rightarrow> d | None \<Rightarrow> []))
            documents_data)"
  by (induction documents_data arbitrary: a b c) (simp_all add: Let_def)

lemma ingest_post_add_args:
  assumes "ingest_post env (Some documents_data) = (resp, Some args)"
    and "ingest_loop documents_data ([], [], []) = (ids, texts, metadatas_prepared)"
  shows "add_ids args = ids \<and> add_documents args = texts
         \<and> add_metadatas args = metadatas_prepared"
proof (cases "get_collection env")
  case (Some e)
  with assms show ?thesis by (simp add: ingest_post_def)
next
  case None
  note gc = None
  show ?thesis
  proof (cases "embed_text_gemini env texts")
    case (Inl e)
    with assms gc show ?thesis by (simp add: ingest_post_def split: if_splits)
  next
    case (Inr embeddings)
    let ?args = "\<lparr>add_ids = ids, add_embeddings = embeddings,
                  add_documents = texts, add_metadatas = metadatas_prepared\<rparr>"
    have "args = ?args"
    proof (cases "collection_add env ?args")
      case None
      with assms gc Inr show ?thesis
        by (simp add: ingest_post_def Let_def split: if_splits)
    next
      case (Some e)
      with assms gc Inr show ?thesis
        by (simp add: ingest_post_def Let_def split: if_splits)
    qed
    then show ?thesis by simp
  qed
qed

text \<open>
  C8 (ingest): whenever the view calls \<^verbatim>\<open>collection.add\<close> for a validated list of
  documents, \<^verbatim>\<open>ids\<close> and \<^verbatim>\<open>documents\<close> are the identifiers and the texts of the
  documents, in order, \<^verbatim>\<open>metadatas\<close> has one entry per document, the entry of a
  document without metadata or with an empty dictionary is \<^verbatim>\<open>{"source": "unknown"}\<close>,
  the entry of any other document is its own dictionary, and no entry is empty.
\<close>

theorem ingest_post_aligned:
  assumes "ingest_post env (Some documents_data) = (resp, Some args)"
  shows "add_ids args = map doc_id documents_data
       \<and> add_documents args = map doc_text documents_data
       \<and> length (add_metadatas args) = length documents_data
       \<and> (\<forall>i<length documents_data.
             add_metadatas args ! i =
               (case doc_metadata (documents_data ! i) of
                  None \<Rightarrow> [(''source'', PStr ''unknown'')]
                | Some [] \<Rightarrow> [(''source'', PStr ''unknown'')]
                | Some (kv # d) \<Rightarrow> kv # d))
       \<and> (\<forall>m\<in>set (add_metadatas args). m \<noteq> [])"
proof -
  let ?prep = "\<lambda>doc. if not_metadata (doc_metadata doc)
                       then [(''source'', PStr ''unknown'')]
                       else (case doc_metadata doc of Some d \<Rightarrow> d | None \<Rightarrow> [])"
  have "ingest_loop documents_data ([], [], []) =
          (map doc_id documents_data, map doc_text documents_data, map ?prep documents_data)"
    by (simp add: ingest_loop_maps)
  from ingest_post_add_args [OF assms this] have
    A: "add_ids args = map doc_id documents_data"
    and B: "add_documents args = map doc_text documents_data"
    and M: "add_metadatas args = map ?prep documents_data"
    by simp_all
  have p: "?prep doc = (case doc_metadata doc of
                  None \<Rightarrow> [(''source'', PStr ''unknown'')]
                | Some [] \<Rightarrow> [(''source'', PStr ''unknown'')]
                | Some (kv # d) \<Rightarrow> kv # d)" for doc
    by (simp add: not_metadata_def split: option.splits list.splits)
  have C: "length (add_metadatas args) = length documents_data" by (simp add: M)
  have D: "\<forall>i<length documents_data.
             add_metadatas args ! i =
               (case doc_metadata (documents_data ! i) of
                  None \<Rightarrow> [(''source'', PStr ''unknown'')]
                | Some [] \<Rightarrow> [(''source'', PStr ''unknown'')]
                | Some (kv # d) \<Rightarrow> kv # d)"
    unfolding M by (simp add: p)
  have E: "\<forall>m\<in>set (add_metadatas args). m \<noteq> []"
    unfolding M by (auto simp: not_metadata_def split: option.splits)
  from A B C D E show ?thesis by blast
qed


theorem ingest_post_aligned_witness:
  "ingest_post example_services (Some example_documents) =
     ((DocumentsAdded 3, HTTP_201_CREATED),
      Some \<lparr>add_ids = [''a'', ''b'', ''c''], add_embeddings = [5, 1, 2],
            add_documents = [''hello'', ''x'', ''yz''],
            add_metadatas = [[(''source'', PStr ''unknown'')], [(''source'', PStr ''unknown'')],
                             [(''k'', PInt 3)]]\<rparr>)
   \<and> length [[(''source'', PStr ''unknown'')], [(''source'', PStr ''unknown'')],
               [(''k'', PInt 3 :: unit py_value)]] = length example_documents"
proof -
  let ?metas = "[[(''source'', PStr ''unknown'')], [(''source'', PStr ''unknown'')],
                 [(''k'', PInt 3 :: unit py_value)]]"
  let ?args = "\<lparr>add_ids = [''a'', ''b'', ''c''], add_embeddings = [5, 1, 2 :: nat],
                 add_documents = [''hello'', ''x'', ''yz''], add_metadatas = ?metas\<rparr>"
  have loop: "ingest_loop example_documents ([], [], []) =
      ([''a'', ''b'', ''c''], [''hello'', ''x'', ''yz''], ?metas)"
    by (simp add: example_documents_def not_metadata_def)
  have gc: "get_collection example_services = None"
    by (simp add: example_services_def)
  have em: "embed_text_gemini example_services [''hello'', ''x'', ''yz''] = Inr [5, 1, 2]"
    by (simp add: example_services_def)
  have ca: "collection_add example_services a = None" for a
    by (simp add: example_services_def)
  have run: "ingest_post example_services (Some example_documents) =
      ((DocumentsAdded 3, HTTP_201_CREATED), Some ?args)"
    by (simp add: ingest_post_def loop gc em ca)
  from ingest_post_aligned [OF run]
  have "length (add_metadatas ?args) = length example_documents" by (rule conjunct1 [OF conjunct2 [OF conjunct2]])
  then have len: "length ?metas = length example_documents" by simp
  from run len show ?thesis by (rule conjI)
qed

subsection \<open>\<^verbatim>\<open>FileUploadIngestView.post\<close>\<close>

lemma upload_metadatas_nth:
  "length (upload_metadatas original_filename n :: 'x metadata list) = n"
  "i < n \<Longrightarrow> (upload_metadatas original_filename n :: 'x metadata list) ! i =
     [(''source'', PStr original_filename), (''chunk_index'', PInt (int i)),
      (''total_chunks'', PInt (int n))]"
  "m \<in> set (upload_metadatas original_filename n :: 'x metadata list) \<Longrightarrow> m \<noteq> []"
  by (auto simp: upload_metadatas_def py_range_def)

lemma upload_store_add_args:
  assumes "upload_store env original_filename chunks = (resp, Some args)"
  shows "add_ids args = generate_chunk_ids (time_now env) original_filename (int (length chunks))
         \<and> add_documents args = chunks
         \<and> add_metadatas args = upload_metadatas original_filename (length chunks)"
proof (cases "embed_text_gemini env chunks")
  case (Inl e)
  with assms show ?thesis by (simp add: upload_store_def Let_def)
next
  case (Inr embeddings)
  note em = Inr
  show ?thesis
  proof (cases "get_collection env")
    case (Some e)
    with assms em show ?thesis by (simp add: upload_store_def Let_def)
  next
    case None
    let ?args = "\<lparr>add_ids = generate_chunk_ids (time_now env) original_filename (int (length chunks)),
                  add_embeddings = embeddings, add_documents = chunks,
                  add_metadatas = upload_metadatas original_filename (length chunks)\<rparr>"
    have "args = ?args"
    proof (cases "collection_add env ?args")
      case None
      with assms em \<open>get_collection env = None\<close> show ?thesis
        by (simp add: upload_store_def Let_def)
    next
      case (Some e)
      with assms em \<open>get_collection env = None\<close> show ?thesis
        by (simp add: upload_store_def Let_def)
    qed
    then show ?thesis by simp
  qed
qed

lemma upload_post_reaches_store:
  assumes "upload_post env (Some (original_filename, Some extracted_text, error_msg)) =
             Some (resp, Some args)"
  shows "\<exists>chunks. simple_chunker extracted_text 1500 150 = Some chunks \<and> chunks \<noteq> []
           \<and> upload_store env original_filename chunks = (resp, Some args)"
proof (cases "simple_chunker extracted_text 1500 150")
  case None
  with assms show ?thesis by (simp add: upload_post_def split: if_splits)
next
  case (Some chunks)
  with assms show ?thesis by (simp add: upload_post_def split: if_splits)
qed

lemma upload_post_returns: "upload_post env request \<noteq> None"
proof (cases request)
  case None
  then show ?thesis by (simp add: upload_post_def)
next
  case (Some r)
  obtain original_filename extracted_text error_msg
    where r: "r = (original_filename, extracted_text, error_msg)" by (cases r)
  show ?thesis
  proof (cases extracted_text)
    case None
    with Some r show ?thesis by (simp add: upload_post_def)
  next
    case (Some t)
    note tx = Some
    show ?thesis
    proof (cases "t = []")
      case True
      with \<open>request = Some r\<close> r tx show ?thesis by (simp add: upload_post_def)
    next
      case False
      from simple_chunker_windows [OF False, of 150 1500]
      obtain cs where "simple_chunker t 1500 150 = Some cs" by auto
      with \<open>request = Some r\<close> r tx show ?thesis by (simp add: upload_post_def del: not_None_eq)
    qed
  qed
qed

text \<open>
  C10 (upload): whenever the view calls \<^verbatim>\<open>collection.add\<close> for an extracted text, the
  chunker has returned a non-empty list of chunks, \<^verbatim>\<open>documents\<close> is that list,
  \<^verbatim>\<open>ids\<close> is the list of generated identifiers, \<^verbatim>\<open>ids\<close> and \<^verbatim>\<open>metadatas\<close>
  have as many entries as there are chunks, the metadata at index \<open>i\<close> is
  \<^verbatim>\<open>{"source": original_filename, "chunk_index": i, "total_chunks": len(chunks)}\<close>, and no
  metadata is empty.
\<close>

theorem upload_post_aligned:
  assumes "upload_post env (Some (original_filename, Some extracted_text, error_msg)) =
             Some (resp, Some args)"
  shows "\<exists>chunks. simple_chunker extracted_text 1500 150 = Some chunks \<and> chunks \<noteq> []
     \<and> add_documents args = chunks
     \<and> add_ids args = generate_chunk_ids (time_now env) original_filename (int (length chunks))
     \<and> length (add_ids args) = length chunks
     \<and> length (add_metadatas args) = length chunks
     \<and> (\<forall>i<length chunks. add_metadatas args ! i =
           [(''source'', PStr original_filename), (''chunk_index'', PInt (int i)),
            (''total_chunks'', PInt (int (length chunks)))])
     \<and> (\<forall>m\<in>set (add_metadatas args). m \<noteq> [])"
proof -
  from upload_post_reaches_store [OF assms] obtain chunks where
    c: "simple_chunker extracted_text 1500 150 = Some chunks" and ne: "chunks \<noteq> []"
    and st: "upload_store env original_filename chunks = (resp, Some args)"
    by blast
  from upload_store_add_args [OF st] have
    A: "add_ids args = generate_chunk_ids (time_now env) original_filename (int (length chunks))"
    and B: "add_documents args = chunks"
    and M: "add_metadatas args = upload_metadatas original_filename (length chunks)"
    by simp_all
  have L: "length (add_ids args) = length chunks"
    unfolding A by (simp add: generate_chunk_ids_def py_range_def)
  have "length (add_metadatas args) = length chunks"
    and "\<forall>i<length chunks. add_metadatas args ! i =
           [(''source'', PStr original_filename), (''chunk_index'', PInt (int i)),
            (''total_chunks'', PInt (int (length chunks)))]"
    and "\<forall>m\<in>set (add_metadatas args). m \<noteq> []"
    unfolding M by (simp_all add: upload_metadatas_nth)
  with c ne A B L show ?thesis by blast
qed

theorem upload_post_aligned_witness:
  "upload_post example_services (Some (''My Report.pdf'', Some ''hello world'', None)) =
     Some ((FileAdded ''My Report.pdf'' 1, HTTP_201_CREATED),
           Some \<lparr>add_ids = [''My_Report_17_chunk_0''], add_embeddings = [11],
                 add_documents = [''hello world''],
                 add_metadatas = [[(''source'', PStr ''My Report.pdf''), (''chunk_index'', PInt 0),
                                   (''total_chunks'', PInt 1)]]\<rparr>)
   \<and> (\<exists>chunks. simple_chunker ''hello world'' 1500 150 = Some chunks \<and> chunks \<noteq> []
        \<and> length [''My_Report_17_chunk_0''] = length chunks)"
proof -
  let ?args = "\<lparr>add_ids = [''My_Report_17_chunk_0''], add_embeddings = [11::nat],
                 add_documents = [''hello world''],
                 add_metadatas = [[(''source'', PStr ''My Report.pdf''), (''chunk_index'', PInt 0),
                                   (''total_chunks'', PInt 1 :: unit py_value)]]\<rparr>"
  have ch: "simple_chunker ''hello world'' 1500 150 = Some [''hello world'']"
    by (simp add: simple_chunker_def chunker_loop.simps py_slice_def slice_bound_def)
  have ids: "generate_chunk_ids 17 ''My Report.pdf'' 1 = [''My_Report_17_chunk_0'']"
    by (simp add: generate_chunk_ids_def py_range_def base_My_Report
          str_int_def str_nat.simps digit_char_def char_of_eq_iff)
  have st: "strip ''hello world'' \<noteq> []"
    by (simp add: strip_def isspace_def)
  have em: "embed_text_gemini example_services [''hello world''] = Inr [11]"
    by (simp add: example_services_def)
  have gc: "get_collection example_services = None"
    by (simp add: example_services_def)
  have tn: "time_now example_services = 17"
    by (simp add: example_services_def)
  have ca: "collection_add example_services a = None" for a
    by (simp add: example_services_def)
  have md: "upload_metadatas ''My Report.pdf'' (Suc 0) =
      [[(''source'', PStr ''My Report.pdf''), (''chunk_index'', PInt 0),
        (''total_chunks'', PInt 1 :: unit py_value)]]"
    by (simp add: upload_metadatas_def py_range_def)
  have store: "upload_store example_services ''My Report.pdf'' [''hello world''] =
      ((FileAdded ''My Report.pdf'' 1, HTTP_201_CREATED), Some ?args)"
    by (simp add: upload_store_def em gc tn ca md ids)
  have run: "upload_post example_services (Some (''My Report.pdf'', Some ''hello world'', None)) =
     Some ((FileAdded ''My Report.pdf'' 1, HTTP_201_CREATED), Some ?args)"
    by (simp add: upload_post_def ch st store)
  from upload_post_aligned [OF run]
  have "\<exists>chunks. simple_chunker ''hello world'' 1500 150 = Some chunks \<and> chunks \<noteq> []
        \<and> length (add_ids ?args) = length chunks"
    by blast
  then have "\<exists>chunks. simple_chunker ''hello world'' 1500 150 = Some chunks \<and> chunks \<noteq> []
        \<and> length [''My_Report_17_chunk_0''] = length chunks"
    by simp
  with run show ?thesis by blast
qed

end
